theory Spec2Isabelle
  imports Complex_Main "HOL-Library.Multiset"
begin

section \<open>The leaderboard web server (src/index.ts)\<close>

text \<open>
  The program is one TypeScript file: it connects to a MongoDB collection and serves two
  routes, \<^verbatim>\<open>GET /leaderboard\<close> and \<^verbatim>\<open>PUT /leaderboard\<close>.
  The two route handlers and the start-up function are embedded below. The document
  store and the web framework are libraries; the operations the program calls on them
  (\<^verbatim>\<open>find\<close>, \<^verbatim>\<open>sort\<close>, \<^verbatim>\<open>limit\<close>, \<^verbatim>\<open>toArray\<close>,
  \<^verbatim>\<open>insertOne\<close>, \<^verbatim>\<open>connect\<close>, \<^verbatim>\<open>listen\<close>) are modelled by what
  they do to a collection held as a list of documents. A store operation is taken to
  complete: the failure of a store that cannot be reached is outside this model.
\<close>

subsection \<open>JavaScript values\<close>

text \<open>
  A JavaScript \<^verbatim>\<open>number\<close> is an IEEE double. The program does no arithmetic on
  scores; it only tests their type and lets the store order them. A number is therefore
  modelled by the real it denotes, or one of the three special values. (The two zeros
  of a double are one value here; they compare equal everywhere.)
\<close>

datatype number = NaN | NegInfinity | Finite real | PosInfinity

text \<open>The comparison \<^verbatim>\<open>a <= b\<close> of JavaScript: false as soon as one side is NaN.\<close>

fun num_le :: "number \<Rightarrow> number \<Rightarrow> bool" where
  "num_le NaN b = False"
| "num_le a NaN = False"
| "num_le NegInfinity b = True"
| "num_le a PosInfinity = True"
| "num_le (Finite x) (Finite y) = (x \<le> y)"
| "num_le a b = False"

text \<open>\<^verbatim>\<open>a >= b\<close> of JavaScript.\<close>

definition js_ge :: "number \<Rightarrow> number \<Rightarrow> bool" where
  "js_ge a b = num_le b a"

text \<open>
  The order in which the store sorts numbers is total: it agrees with the numeric order,
  and NaN ranks below every other number (and equal to itself).
\<close>

definition store_le :: "number \<Rightarrow> number \<Rightarrow> bool" where
  "store_le a b = (a = NaN \<or> num_le a b)"

definition store_less :: "number \<Rightarrow> number \<Rightarrow> bool" where
  "store_less a b = (store_le a b \<and> a \<noteq> b)"

text \<open>
  The request body has type \<^verbatim>\<open>any\<close>: whatever the body parser delivered. An object
  is the list of its own properties, each key once.
\<close>

datatype jsvalue =
    JUndefined
  | JNull
  | JBoolean bool
  | JNumber number
  | JString string
  | JArray "jsvalue list"
  | JObject "(string \<times> jsvalue) list"

fun typeof :: "jsvalue \<Rightarrow> string" where
  "typeof JUndefined = ''undefined''"
| "typeof JNull = ''object''"
| "typeof (JBoolean b) = ''boolean''"
| "typeof (JNumber n) = ''number''"
| "typeof (JString s) = ''string''"
| "typeof (JArray vs) = ''object''"
| "typeof (JObject fs) = ''object''"

text \<open>
  What a handler can throw: the object literal of the PUT handler, or the TypeError the
  language raises when a property of \<^verbatim>\<open>undefined\<close> or \<^verbatim>\<open>null\<close> is read.
\<close>

record status_message =
  statusCode :: nat
  message :: string

record error_object = status_message +
  error :: string

datatype thrown = Object error_object | TypeError

datatype 'a completion = Returns 'a | Throws thrown

text \<open>
  Reading the property \<^verbatim>\<open>v.k\<close>. Only the keys \<^verbatim>\<open>name\<close> and
  \<^verbatim>\<open>score\<close> are ever read; neither is an inherited property of a string, a
  number, a boolean or an array, so these give \<^verbatim>\<open>undefined\<close>.
\<close>

fun get_property :: "jsvalue \<Rightarrow> string \<Rightarrow> thrown + jsvalue" where
  "get_property JUndefined k = Inl TypeError"
| "get_property JNull k = Inl TypeError"
| "get_property (JObject fs) k =
     Inr (case map_of fs k of None \<Rightarrow> JUndefined | Some v \<Rightarrow> v)"
| "get_property v k = Inr JUndefined"

subsection \<open>The collection\<close>

text \<open>
  The interface \<^verbatim>\<open>LeaderboardEntry\<close> of the source, and a stored document: an
  entry with the identifier \<^verbatim>\<open>_id\<close> the store adds (field \<open>oid\<close>).
\<close>

record LeaderboardEntry =
  name :: string
  score :: number

record document = LeaderboardEntry +
  oid :: nat

type_synonym collection = "document list"

text \<open>The projection \<^verbatim>\<open>{ _id: 0 }\<close>: every field but the identifier.\<close>

definition without_id :: "document \<Rightarrow> LeaderboardEntry" where
  "without_id d = \<lparr>name = name d, score = score d\<rparr>"

text \<open>\<^verbatim>\<open>find({}, { projection: { _id: 0 } })\<close>: every document, projected.\<close>

definition find_all :: "collection \<Rightarrow> LeaderboardEntry list" where
  "find_all c = map without_id c"

text \<open>
  \<^verbatim>\<open>sort({ score: -1 })\<close>: the documents rearranged so that scores descend in the
  store's order. The store does not say in which order documents of equal score come, so
  the sort is a relation between the input and each output it may produce.
\<close>

definition descending :: "LeaderboardEntry list \<Rightarrow> bool" where
  "descending ys = sorted_wrt (\<lambda>a b. store_le (score b) (score a)) ys"

definition sort_by_score :: "LeaderboardEntry list \<Rightarrow> LeaderboardEntry list \<Rightarrow> bool" where
  "sort_by_score xs ys = (mset ys = mset xs \<and> descending ys)"

text \<open>\<^verbatim>\<open>limit(n)\<close>: the first \<open>n\<close> documents of the cursor.\<close>

definition limit :: "nat \<Rightarrow> 'a list \<Rightarrow> 'a list" where
  "limit n xs = take n xs"

text \<open>
  One sort the store may perform, as a function: insertion into a descending list, a new
  document going behind those of equal score.
\<close>

fun place :: "LeaderboardEntry \<Rightarrow> LeaderboardEntry list \<Rightarrow> LeaderboardEntry list" where
  "place e [] = [e]"
| "place e (y # ys) =
     (if store_le (score e) (score y) then y # place e ys else e # y # ys)"

fun arrange :: "LeaderboardEntry list \<Rightarrow> LeaderboardEntry list" where
  "arrange [] = []"
| "arrange (x # xs) = place x (arrange xs)"

text \<open>
  \<^verbatim>\<open>insertOne(doc)\<close>: the document is stored with an identifier no stored document
  has.
\<close>

definition fresh_oid :: "collection \<Rightarrow> nat" where
  "fresh_oid c = Suc (fold max (map oid c) 0)"

definition insertOne :: "LeaderboardEntry \<Rightarrow> collection \<Rightarrow> collection" where
  "insertOne e c = c @ [\<lparr>name = name e, score = score e, oid = fresh_oid c\<rparr>]"

subsection \<open>The handler of GET /leaderboard\<close>

record 'e board_reply =
  result :: "'e list"

text \<open>
  The handler awaits \<^verbatim>\<open>find(...).sort({score: -1}).limit(10).toArray()\<close> and
  returns \<^verbatim>\<open>{ result: board }\<close>. It relates the collection to each completion the
  handler may have, paired with the collection afterwards.
\<close>

inductive get_leaderboard ::
  "collection \<Rightarrow> LeaderboardEntry board_reply completion \<times> collection \<Rightarrow> bool" where
  get_board:
    "sort_by_score (find_all c) ys \<Longrightarrow> board = limit 10 ys \<Longrightarrow>
     get_leaderboard c (Returns \<lparr>result = board\<rparr>, c)"

text \<open>The run of the handler in which the store sorts by \<open>arrange\<close>.\<close>

definition get_leaderboard_run ::
  "collection \<Rightarrow> LeaderboardEntry board_reply completion \<times> collection" where
  "get_leaderboard_run c = (Returns \<lparr>result = limit 10 (arrange (find_all c))\<rparr>, c)"

text \<open>
  The run of the handler in which the store orders equal scores by a given rule, and the
  stored scores in descending order.
\<close>

definition get_leaderboard_by ::
  "(LeaderboardEntry list \<Rightarrow> LeaderboardEntry list) \<Rightarrow> collection \<Rightarrow>
   LeaderboardEntry board_reply completion \<times> collection" where
  "get_leaderboard_by tie_rule c = (Returns \<lparr>result = limit 10 (tie_rule (find_all c))\<rparr>, c)"

definition scores_descending :: "collection \<Rightarrow> number list" where
  "scores_descending c = map score (arrange (find_all c))"

subsection \<open>The handler of PUT /leaderboard\<close>

definition invalid_body :: error_object where
  "invalid_body = \<lparr>statusCode = 400, message = ''Invalid body'', error = ''Bad Request''\<rparr>"

definition posted :: status_message where
  "posted = \<lparr>statusCode = 200, message = ''Your score has been posted''\<rparr>"

text \<open>
  The condition \<^verbatim>\<open>body === null || typeof body.name !== 'string' || typeof body.score !== 'number'\<close>
  is evaluated left to right and stops at the first true operand; reading a property can
  throw. When it is false, \<^verbatim>\<open>body.name\<close> is a string and \<^verbatim>\<open>body.score\<close> a
  number, and \<^verbatim>\<open>{ name: body.name, score: body.score }\<close> is inserted. The test
  \<^verbatim>\<open>typeof v !== 'string'\<close> is the case distinction on \<open>v\<close>: see
  \<open>typeof_string\<close> and \<open>typeof_number\<close> below.
\<close>

definition put_leaderboard :: "jsvalue \<Rightarrow> collection \<Rightarrow> status_message completion \<times> collection" where
  "put_leaderboard body c =
     (if body = JNull then (Throws (Object invalid_body), c)
      else case get_property body ''name'' of
        Inl t \<Rightarrow> (Throws t, c)
      | Inr (JString n) \<Rightarrow>
          (case get_property body ''score'' of
             Inl t \<Rightarrow> (Throws t, c)
           | Inr (JNumber s) \<Rightarrow> (Returns posted, insertOne \<lparr>name = n, score = s\<rparr> c)
           | Inr _ \<Rightarrow> (Throws (Object invalid_body), c))
      | Inr _ \<Rightarrow> (Throws (Object invalid_body), c))"

subsection \<open>What the framework sends\<close>

text \<open>
  The framework answers with status 200 and the returned object when the handler
  returns; when the handler throws an object that carries a \<^verbatim>\<open>statusCode\<close>, with
  that status and the object's fields; and with status 500 for any other error.
  \<open>reply\<close> gives the status and the object that is handed to the serializer. The body
  on the wire is the JSON text of that object: it carries strings and status codes as they
  are, so the two objects of the PUT handler are sent unchanged, but it has no notation
  for a number that is not finite (see \<open>send_board\<close> below).
\<close>

datatype 'a payload = Sent 'a | SentError error_object | InternalError

definition reply :: "'a completion \<Rightarrow> nat \<times> 'a payload" where
  "reply out =
     (case out of
        Returns v \<Rightarrow> (200, Sent v)
      | Throws (Object e) \<Rightarrow> (statusCode e, SentError e)
      | Throws TypeError \<Rightarrow> (500, InternalError))"

text \<open>
  A number in a JSON text is finite: the serializer writes \<^verbatim>\<open>null\<close> for NaN,
  Infinity and -Infinity. \<open>sent_entry\<close> is an entry of the board as the body of the
  response carries it.
\<close>

datatype json_number = JsonNull | JsonNum real

record sent_entry =
  sent_name :: string
  sent_score :: json_number

fun to_json :: "number \<Rightarrow> json_number" where
  "to_json (Finite x) = JsonNum x"
| "to_json n = JsonNull"

definition serialize :: "LeaderboardEntry \<Rightarrow> sent_entry" where
  "serialize e = \<lparr>sent_name = name e, sent_score = to_json (score e)\<rparr>"

text \<open>The response to GET /leaderboard: the status, and the body that is sent.\<close>

definition send_board ::
  "LeaderboardEntry board_reply completion \<Rightarrow> nat \<times> sent_entry board_reply payload" where
  "send_board out =
     (case reply out of
        (status, Sent v) \<Rightarrow> (status, Sent \<lparr>result = map serialize (result v)\<rparr>)
      | (status, SentError e) \<Rightarrow> (status, SentError e)
      | (status, InternalError) \<Rightarrow> (status, InternalError))"

text \<open>
  \<^verbatim>\<open>a >= b\<close> of JavaScript between two scores read from the body: \<^verbatim>\<open>null\<close>
  counts as the number 0.
\<close>

fun to_number :: "json_number \<Rightarrow> real" where
  "to_number JsonNull = 0"
| "to_number (JsonNum x) = x"

definition sent_ge :: "json_number \<Rightarrow> json_number \<Rightarrow> bool" where
  "sent_ge a b = (to_number b \<le> to_number a)"

subsection \<open>The states of the store\<close>

text \<open>
  The framework calls the PUT handler with the body its parser produced: the value of a
  JSON text, a string, or nothing. No such value holds NaN, for which JSON has no
  notation. (It can hold Infinity: a JSON number beyond the range of a double, such as
  \<^verbatim>\<open>1e999\<close>, is read as Infinity.)
\<close>

fun NaN_free :: "jsvalue \<Rightarrow> bool" where
  "NaN_free (JNumber n) = (n \<noteq> NaN)"
| "NaN_free (JArray vs) = (\<forall>v\<in>set vs. NaN_free v)"
| "NaN_free (JObject fs) = (\<forall>v\<in>snd ` set fs. NaN_free v)"
| "NaN_free v = True"

text \<open>
  The collection is written by the PUT handler only: its states are the empty collection
  and what a PUT request leaves of a state.
\<close>

inductive stored :: "collection \<Rightarrow> bool" where
  stored_empty: "stored []"
| stored_put: "stored c \<Longrightarrow> NaN_free body \<Longrightarrow> stored (snd (put_leaderboard body c))"

subsection \<open>Start-up\<close>

text \<open>
  The start-up function awaits \<^verbatim>\<open>connection.connect()\<close>, binds the collection
  \<^verbatim>\<open>leaderboard\<close> of the database \<^verbatim>\<open>example\<close>, registers the two routes and
  calls \<^verbatim>\<open>server.listen(2000, ...)\<close>. The promise of \<^verbatim>\<open>connect\<close> is fulfilled,
  is rejected, or never settles; the statements after the \<^verbatim>\<open>await\<close> run only when it
  is fulfilled. The model is the sequence of effects of a run.
\<close>

datatype settled = Fulfilled | Rejected | Pending

datatype http_method = GET | PUT

datatype effect =
    ConnectCalled
  | Connected
  | CollectionBound string string
  | RouteRegistered http_method string
  | Listen nat

definition await :: "settled \<Rightarrow> effect list \<Rightarrow> effect list \<Rightarrow> effect list" where
  "await p on_fulfilled rest =
     (case p of Fulfilled \<Rightarrow> on_fulfilled @ rest | Rejected \<Rightarrow> [] | Pending \<Rightarrow> [])"

definition bootstrap :: "settled \<Rightarrow> effect list" where
  "bootstrap connect =
     ConnectCalled #
     await connect [Connected]
       [CollectionBound ''example'' ''leaderboard'',
        RouteRegistered GET ''/leaderboard'',
        RouteRegistered PUT ''/leaderboard'',
        Listen 2000]"

subsection \<open>Sample collections\<close>

text \<open>Collections on which the properties below are evaluated.\<close>

definition two_scores :: collection where
  "two_scores =
     [\<lparr>name = ''a'', score = NaN, oid = 0\<rparr>, \<lparr>name = ''b'', score = Finite 1, oid = 1\<rparr>]"

definition fifteen :: collection where
  "fifteen =
     map (\<lambda>i. \<lparr>name = ''p'', score = Finite (of_nat i), oid = i\<rparr>)
       [7, 3, 12, 0, 14, 9, 1, 5, 11, 2, 13, 6, 4, 10, 8]"

definition tied_three :: collection where
  "tied_three =
     [\<lparr>name = ''a'', score = Finite 7, oid = 1\<rparr>, \<lparr>name = ''b'', score = Finite 7, oid = 2\<rparr>,
      \<lparr>name = ''c'', score = Finite 3, oid = 3\<rparr>]"

definition infinity_first :: collection where
  "infinity_first =
     [\<lparr>name = ''a'', score = PosInfinity, oid = 1\<rparr>, \<lparr>name = ''b'', score = Finite 5, oid = 2\<rparr>]"

section \<open>Properties\<close>

lemma typeof_string: "typeof v = ''string'' \<longleftrightarrow> (\<exists>s. v = JString s)"
  by (cases v) auto

lemma typeof_number: "typeof v = ''number'' \<longleftrightarrow> (\<exists>n. v = JNumber n)"
  by (cases v) auto

subsection \<open>The store's order and its sort\<close>

lemma store_le_refl: "store_le a a"
  by (cases a) (simp_all add: store_le_def)

lemma store_le_total: "store_le a b \<or> store_le b a"
  by (cases a; cases b) (auto simp: store_le_def)

lemma store_le_trans: "store_le a b \<Longrightarrow> store_le b c \<Longrightarrow> store_le a c"
  by (cases a; cases b; cases c) (auto simp: store_le_def)

lemma store_le_antisym: "store_le a b \<Longrightarrow> store_le b a \<Longrightarrow> a = b"
  by (cases a; cases b) (auto simp: store_le_def)

lemma js_ge_store_le: "a \<noteq> NaN \<Longrightarrow> b \<noteq> NaN \<Longrightarrow> js_ge a b = store_le b a"
  by (simp add: js_ge_def store_le_def)

lemma mset_place: "mset (place e ys) = add_mset e (mset ys)"
  by (induction ys) auto

lemma mset_arrange: "mset (arrange xs) = mset xs"
  by (induction xs) (auto simp: mset_place)

lemma set_place: "set (place e ys) = insert e (set ys)"
  by (induction ys) auto

lemma descending_place: "descending ys \<Longrightarrow> descending (place e ys)"
  unfolding descending_def
proof (induction ys)
  case Nil
  then show ?case by simp
next
  case (Cons y ys)
  show ?case
  proof (cases "store_le (score e) (score y)")
    case True
    with Cons show ?thesis by (auto simp: set_place)
  next
    case False
    then have ye: "store_le (score y) (score e)"
      using store_le_total by blast
    with Cons.prems False show ?thesis
      by (auto intro: store_le_trans)
  qed
qed

lemma descending_arrange: "descending (arrange xs)"
  by (induction xs) (auto simp: descending_place, simp add: descending_def)

lemma sort_by_score_arrange: "sort_by_score xs (arrange xs)"
  by (simp add: sort_by_score_def mset_arrange descending_arrange)

lemma desc_scores_unique:
  "sorted_wrt (\<lambda>a b. store_le b a) xs \<Longrightarrow> sorted_wrt (\<lambda>a b. store_le b a) ys \<Longrightarrow>
   mset xs = mset ys \<Longrightarrow> xs = ys"
proof (induction xs arbitrary: ys)
  case Nil
  then show ?case by simp
next
  case (Cons x xs)
  then obtain y ys' where ys: "ys = y # ys'"
    by (cases ys) auto
  have "x \<in> set ys" using Cons.prems(3) by (metis list.set_intros(1) set_mset_mset)
  then have yx: "store_le x y" using Cons.prems(2) ys by (auto simp: store_le_refl)
  have "y \<in> set (x # xs)" using Cons.prems(3) ys by (metis list.set_intros(1) set_mset_mset)
  then have xy: "store_le y x" using Cons.prems(1) by (auto simp: store_le_refl)
  have eq: "x = y" using yx xy by (rule store_le_antisym)
  with Cons.prems ys have "xs = ys'"
    by (intro Cons.IH) auto
  with eq ys show ?case by simp
qed


lemma get_leaderboard_total: "get_leaderboard c (get_leaderboard_run c)"
  unfolding get_leaderboard_run_def
  by (rule get_board [OF sort_by_score_arrange refl])

lemma sort_by_score_scores:
  assumes "sort_by_score xs ys" and "sort_by_score xs zs"
  shows "map score ys = map score zs"
proof (rule desc_scores_unique)
  show "sorted_wrt (\<lambda>a b. store_le b a) (map score ys)"
    using assms(1) by (simp add: sort_by_score_def descending_def sorted_wrt_map)
  show "sorted_wrt (\<lambda>a b. store_le b a) (map score zs)"
    using assms(2) by (simp add: sort_by_score_def descending_def sorted_wrt_map)
  have "mset ys = mset zs"
    using assms by (simp add: sort_by_score_def)
  then show "mset (map score ys) = mset (map score zs)"
    by simp
qed

lemma sort_by_score_unique:
  assumes d: "distinct (map score xs)"
    and ys: "sort_by_score xs ys" and zs: "sort_by_score xs zs"
  shows "ys = zs"
proof -
  have inj: "inj_on score (set xs)"
    using d by (simp add: distinct_map)
  have "set ys = set xs" and "set zs = set xs"
    using ys zs by (auto simp: sort_by_score_def dest: mset_eq_setD)
  then have "inj_on score (set ys \<union> set zs)"
    using inj by simp
  moreover have "map score ys = map score zs"
    using ys zs by (rule sort_by_score_scores)
  ultimately show ?thesis
    by (simp add: inj_on_map_eq_map)
qed

lemma fold_max_ge: "x \<in> set xs \<Longrightarrow> x \<le> fold max xs (a::nat)"
proof (induction xs arbitrary: a)
  case Nil
  then show ?case by simp
next
  case (Cons y ys)
  have mono: "\<And>b. b \<le> fold max ys b"
  proof -
    fix b :: nat
    show "b \<le> fold max ys b"
      by (induction ys arbitrary: b) (auto intro: order_trans [OF max.cobounded2])
  qed
  from Cons show ?case
    by (auto intro: order_trans [OF max.cobounded1 mono])
qed

lemma fresh_oid_new: "fresh_oid c \<notin> oid ` set c"
proof
  assume "fresh_oid c \<in> oid ` set c"
  then have "fresh_oid c \<in> set (map oid c)" by simp
  then have "fresh_oid c \<le> fold max (map oid c) 0" by (rule fold_max_ge)
  then show False by (simp add: fresh_oid_def)
qed

subsection \<open>The two handlers\<close>

lemma get_leaderboard_board:
  assumes "get_leaderboard c (out, c')"
  obtains ys where "sort_by_score (find_all c) ys" and "out = Returns \<lparr>result = limit 10 ys\<rparr>"
    and "c' = c"
  using assms by (auto elim: get_leaderboard.cases)

lemma score_find_all: "map score (find_all c) = map score c"
  by (simp add: find_all_def without_id_def)

lemma sort_by_score_length: "sort_by_score xs ys \<Longrightarrow> length ys = length xs"
  by (auto simp: sort_by_score_def dest: mset_eq_length)

lemma get_property_throws:
  "get_property body k = Inl t \<longleftrightarrow> (body = JUndefined \<or> body = JNull) \<and> t = TypeError"
  by (cases body) auto

lemma get_leaderboard_returns: "\<exists>out. get_leaderboard c (out, c)"
  using get_leaderboard_total [of c] by (auto simp: get_leaderboard_run_def)

lemma put_leaderboard_valid:
  assumes "get_property body ''name'' = Inr (JString n)"
    and "get_property body ''score'' = Inr (JNumber s)"
  shows "put_leaderboard body c =
    (Returns posted, c @ [\<lparr>name = n, score = s, oid = fresh_oid c\<rparr>])"
proof -
  have "body \<noteq> JNull"
    using assms(1) by auto
  then show ?thesis
    using assms by (simp add: put_leaderboard_def insertOne_def)
qed

subsection \<open>The states of the store and the body that is sent\<close>

lemma put_leaderboard_collection:
  "snd (put_leaderboard body c) = c \<or>
   (\<exists>n s. get_property body ''score'' = Inr (JNumber s)
      \<and> snd (put_leaderboard body c) = c @ [\<lparr>name = n, score = s, oid = fresh_oid c\<rparr>])"
  by (auto simp: put_leaderboard_def insertOne_def split: sum.splits jsvalue.splits)

lemma NaN_free_score:
  assumes "NaN_free body" and "get_property body ''score'' = Inr (JNumber s)"
  shows "s \<noteq> NaN"
proof (cases body)
  case (JObject fs)
  with assms(2) have "map_of fs ''score'' = Some (JNumber s)"
    by (auto split: option.splits)
  then have "(''score'', JNumber s) \<in> set fs"
    by (rule map_of_SomeD)
  moreover have "\<forall>p\<in>set fs. NaN_free (snd p)"
    using assms(1) JObject by simp
  ultimately have "NaN_free (snd (''score'', JNumber s))"
    by blast
  then show ?thesis by simp
qed (use assms(2) in auto)

lemma stored_no_NaN: "stored c \<Longrightarrow> d \<in> set c \<Longrightarrow> score d \<noteq> NaN"
proof (induction arbitrary: d rule: stored.induct)
  case stored_empty
  then show ?case by simp
next
  case (stored_put c body)
  from put_leaderboard_collection [of body c] show ?case
  proof
    assume "snd (put_leaderboard body c) = c"
    with stored_put show ?thesis by simp
  next
    assume "\<exists>n s. get_property body ''score'' = Inr (JNumber s)
      \<and> snd (put_leaderboard body c) = c @ [\<lparr>name = n, score = s, oid = fresh_oid c\<rparr>]"
    then obtain n s where s: "get_property body ''score'' = Inr (JNumber s)"
      and c': "snd (put_leaderboard body c) = c @ [\<lparr>name = n, score = s, oid = fresh_oid c\<rparr>]"
      by blast
    have "s \<noteq> NaN"
      using stored_put.hyps(2) s by (rule NaN_free_score)
    with stored_put c' show ?thesis by auto
  qed
qed

lemma sent_ge_finite:
  "a \<noteq> NaN \<Longrightarrow> b \<noteq> NaN \<Longrightarrow> to_json a \<noteq> JsonNull \<Longrightarrow> to_json b \<noteq> JsonNull \<Longrightarrow>
   sent_ge (to_json a) (to_json b) = js_ge a b"
  by (cases a; cases b) (simp_all add: sent_ge_def js_ge_def)

lemma stored_infinity_first: "stored infinity_first"
proof -
  let ?a = "JObject [(''name'', JString ''a''), (''score'', JNumber PosInfinity)]"
  let ?b = "JObject [(''name'', JString ''b''), (''score'', JNumber (Finite 5))]"
  have "snd (put_leaderboard ?b (snd (put_leaderboard ?a []))) = infinity_first"
    by (simp add: put_leaderboard_def insertOne_def fresh_oid_def infinity_first_def)
  moreover have "stored (snd (put_leaderboard ?b (snd (put_leaderboard ?a []))))"
    by (intro stored_put stored_empty) simp_all
  ultimately show ?thesis
    by simp
qed

lemma stored_tied_three: "stored tied_three"
proof -
  let ?a = "JObject [(''name'', JString ''a''), (''score'', JNumber (Finite 7))]"
  let ?b = "JObject [(''name'', JString ''b''), (''score'', JNumber (Finite 7))]"
  let ?c = "JObject [(''name'', JString ''c''), (''score'', JNumber (Finite 3))]"
  have "snd (put_leaderboard ?c (snd (put_leaderboard ?b (snd (put_leaderboard ?a []))))) =
      tied_three"
    by (simp add: put_leaderboard_def insertOne_def fresh_oid_def tied_three_def)
  moreover have
    "stored (snd (put_leaderboard ?c (snd (put_leaderboard ?b (snd (put_leaderboard ?a []))))))"
    by (intro stored_put stored_empty) simp_all
  ultimately show ?thesis
    by simp
qed

lemma get_infinity_first:
  "get_leaderboard_run infinity_first =
     (Returns \<lparr>result = [\<lparr>name = ''a'', score = PosInfinity\<rparr>, \<lparr>name = ''b'', score = Finite 5\<rparr>]\<rparr>,
      infinity_first)"
  by (simp add: get_leaderboard_run_def infinity_first_def find_all_def without_id_def
      limit_def store_le_def)

lemma top_is_filter:
  assumes srt: "sorted_wrt (\<lambda>a b. store_le (score b) (score a)) ys"
    and n: "Suc n < length ys"
    and gap: "score (ys ! n) \<noteq> score (ys ! Suc n)"
  shows "take (Suc n) ys = filter (\<lambda>e. store_le (score (ys ! n)) (score e)) ys"
proof -
  let ?P = "\<lambda>e. store_le (score (ys ! n)) (score e)"
  have le: "store_le (score (ys ! j)) (score (ys ! i))" if "i \<le> j" "j < length ys" for i j
  proof (cases "i = j")
    case True
    then show ?thesis by (simp add: store_le_refl)
  next
    case False
    with that have "i < j" by simp
    with srt that(2) show ?thesis
      by (simp add: sorted_wrt_iff_nth_less)
  qed
  have top: "?P e" if "e \<in> set (take (Suc n) ys)" for e
  proof -
    from that obtain i where "i < Suc n" and "i < length ys" and "e = ys ! i"
      by (auto simp: in_set_conv_nth)
    then show ?thesis
      using le [of i n] n by simp
  qed
  have rest: "\<not> ?P e" if "e \<in> set (drop (Suc n) ys)" for e
  proof
    assume p: "?P e"
    from that obtain k where "k < length ys - Suc n" and "e = ys ! (Suc n + k)"
      by (auto simp: in_set_conv_nth)
    then have k: "Suc n + k < length ys" and e: "e = ys ! (Suc n + k)"
      by simp_all
    have "store_le (score e) (score (ys ! Suc n))"
      using le [of "Suc n" "Suc n + k"] k e by simp
    with p have "store_le (score (ys ! n)) (score (ys ! Suc n))"
      by (rule store_le_trans)
    moreover have "store_le (score (ys ! Suc n)) (score (ys ! n))"
      using le [of n "Suc n"] n by simp
    ultimately have "score (ys ! n) = score (ys ! Suc n)"
      by (rule store_le_antisym)
    with gap show False by simp
  qed
  have "filter ?P ys = filter ?P (take (Suc n) ys) @ filter ?P (drop (Suc n) ys)"
    by (metis append_take_drop_id filter_append)
  also have "filter ?P (take (Suc n) ys) = take (Suc n) ys"
    using top by (simp add: filter_id_conv)
  also have "filter ?P (drop (Suc n) ys) = []"
    using rest by (simp add: filter_empty_conv)
  finally show ?thesis by simp
qed

lemma top_ten_same_entries:
  assumes ys: "sort_by_score xs ys" and zs: "sort_by_score xs zs"
    and cut: "length xs \<le> 10 \<or> score (ys ! 9) \<noteq> score (ys ! 10)"
  shows "mset (take 10 ys) = mset (take 10 zs)"
proof (cases "length xs \<le> 10")
  case True
  then have "take 10 ys = ys" and "take 10 zs = zs"
    using sort_by_score_length [OF ys] sort_by_score_length [OF zs] by simp_all
  then show ?thesis
    using ys zs by (simp add: sort_by_score_def)
next
  case False
  then have ly: "Suc 9 < length ys" and lz: "Suc 9 < length zs"
    using sort_by_score_length [OF ys] sort_by_score_length [OF zs] by simp_all
  have sc: "map score ys = map score zs"
    using ys zs by (rule sort_by_score_scores)
  have nth: "score (ys ! i) = score (zs ! i)" if "i < length ys" for i
  proof -
    have "map score ys ! i = map score zs ! i"
      by (simp add: sc)
    then show ?thesis
      using that sort_by_score_length [OF ys] sort_by_score_length [OF zs] by simp
  qed
  have gy: "score (ys ! 9) \<noteq> score (ys ! Suc 9)"
    using cut False by simp
  then have gz: "score (zs ! 9) \<noteq> score (zs ! Suc 9)"
    using nth [of 9] nth [of "Suc 9"] ly by simp
  let ?P = "\<lambda>e. store_le (score (ys ! 9)) (score e)"
  have "take (Suc 9) ys = filter ?P ys"
    using ys ly gy by (intro top_is_filter) (simp_all add: sort_by_score_def descending_def)
  moreover have "take (Suc 9) zs = filter (\<lambda>e. store_le (score (zs ! 9)) (score e)) zs"
    using zs lz gz by (intro top_is_filter) (simp_all add: sort_by_score_def descending_def)
  moreover have "score (zs ! 9) = score (ys ! 9)"
    using nth [of 9] ly by simp
  moreover have "mset (filter ?P ys) = mset (filter ?P zs)"
  proof -
    have "mset ys = mset zs"
      using ys zs by (simp add: sort_by_score_def)
    then have "filter_mset ?P (mset ys) = filter_mset ?P (mset zs)"
      by simp
    then show ?thesis
      by (simp only: mset_filter)
  qed
  ultimately show ?thesis
    by simp
qed

subsection \<open>GET /leaderboard: the board\<close>

text \<open>
  Claim C1. For every state of the store, GET /leaderboard has an answer, and every answer
  it may give has status 200 and the body \<^verbatim>\<open>{ result: entries }\<close>, where the entries
  are at most 10, every entry is a stored document without its identifier (no entry more
  often than it is stored) and is sent with the two fields name and score, and the
  entries are in descending order of score: the board the handler returns satisfies
  \<^verbatim>\<open>board[i].score >= board[i+1].score\<close> for all \<open>i\<close>, and so do the scores in the
  body wherever both are numbers. (A stored Infinity or -Infinity is sent as
  \<^verbatim>\<open>null\<close>, so between the scores of the body \<^verbatim>\<open>>=\<close> does not hold for all
  \<open>i\<close>: the counterexample follows the witness.)
\<close>

theorem get_top_ten_descending:
  assumes st: "stored c"
  shows "(\<exists>out. get_leaderboard c (out, c))
   \<and> (\<forall>out c'. get_leaderboard c (out, c') \<longrightarrow>
        (\<exists>board. out = Returns \<lparr>result = board\<rparr>
           \<and> send_board out = (200, Sent \<lparr>result = map serialize board\<rparr>)
           \<and> length board \<le> 10
           \<and> mset board \<subseteq># mset (map without_id c)
           \<and> (\<forall>i. Suc i < length board \<longrightarrow>
                  js_ge (score (board ! i)) (score (board ! Suc i)))
           \<and> (\<forall>i. Suc i < length board \<longrightarrow>
                  sent_score (serialize (board ! i)) \<noteq> JsonNull \<longrightarrow>
                  sent_score (serialize (board ! Suc i)) \<noteq> JsonNull \<longrightarrow>
                  sent_ge (sent_score (serialize (board ! i)))
                    (sent_score (serialize (board ! Suc i))))))"
  (is "?total \<and> (\<forall>out c'. ?get out c' \<longrightarrow> ?good out c')")
proof (intro conjI allI impI)
  show ?total
    by (rule get_leaderboard_returns)
next
  fix out c'
  assume get: "get_leaderboard c (out, c')"
  from get obtain ys where ys: "sort_by_score (find_all c) ys"
    and out: "out = Returns \<lparr>result = limit 10 ys\<rparr>"
    by (rule get_leaderboard_board)
  let ?b = "limit 10 ys"
  have len: "length ?b \<le> 10"
    by (simp add: limit_def)
  have "descending ys"
    using ys by (simp add: sort_by_score_def)
  then have desc: "sorted_wrt (\<lambda>a b. store_le (score b) (score a)) ?b"
    by (simp add: descending_def limit_def)
  have adj: "store_le (score (?b ! Suc i)) (score (?b ! i))" if "Suc i < length ?b" for i
    using desc that by (simp add: sorted_wrt_iff_nth_less)
  have "mset ?b \<subseteq># mset ys"
    unfolding limit_def by (metis append_take_drop_id mset_append mset_subset_eq_add_left)
  moreover have "mset ys = mset (map without_id c)"
    using ys by (simp add: sort_by_score_def find_all_def)
  ultimately have sub: "mset ?b \<subseteq># mset (map without_id c)"
    by simp
  have number: "score e \<noteq> NaN" if "e \<in> set ?b" for e
  proof -
    from that sub have "e \<in> set (map without_id c)"
      by (metis mset_subset_eqD set_mset_mset)
    then obtain d where "d \<in> set c" and "e = without_id d"
      by auto
    with stored_no_NaN [OF st] show ?thesis
      by (simp add: without_id_def)
  qed
  have ge: "js_ge (score (?b ! i)) (score (?b ! Suc i))" if "Suc i < length ?b" for i
  proof -
    have "score (?b ! i) \<noteq> NaN" and "score (?b ! Suc i) \<noteq> NaN"
      using that by (simp_all add: number)
    with adj [OF that] show ?thesis
      by (simp add: js_ge_store_le)
  qed
  have sent: "sent_ge (sent_score (serialize (?b ! i))) (sent_score (serialize (?b ! Suc i)))"
    if i: "Suc i < length ?b"
      and fi: "sent_score (serialize (?b ! i)) \<noteq> JsonNull"
      and fs: "sent_score (serialize (?b ! Suc i)) \<noteq> JsonNull" for i
  proof -
    have "score (?b ! i) \<noteq> NaN" and "score (?b ! Suc i) \<noteq> NaN"
      using i by (simp_all add: number)
    then have "sent_ge (to_json (score (?b ! i))) (to_json (score (?b ! Suc i))) =
        js_ge (score (?b ! i)) (score (?b ! Suc i))"
      using fi fs by (intro sent_ge_finite) (simp_all add: serialize_def)
    with ge [OF i] show ?thesis
      by (simp add: serialize_def)
  qed
  show "?good out c'"
    using out len sub ge sent by (auto simp: send_board_def reply_def)
qed

theorem get_top_ten_descending_witness:
  "stored tied_three
   \<and> get_leaderboard tied_three
       (Returns \<lparr>result = [\<lparr>name = ''a'', score = Finite 7\<rparr>, \<lparr>name = ''b'', score = Finite 7\<rparr>,
          \<lparr>name = ''c'', score = Finite 3\<rparr>]\<rparr>, tied_three)
   \<and> send_board
       (Returns \<lparr>result = [\<lparr>name = ''a'', score = Finite 7\<rparr>, \<lparr>name = ''b'', score = Finite 7\<rparr>,
          \<lparr>name = ''c'', score = Finite 3\<rparr>]\<rparr>) =
       (200, Sent \<lparr>result = [\<lparr>sent_name = ''a'', sent_score = JsonNum 7\<rparr>,
                            \<lparr>sent_name = ''b'', sent_score = JsonNum 7\<rparr>,
                            \<lparr>sent_name = ''c'', sent_score = JsonNum 3\<rparr>]\<rparr>)
   \<and> js_ge (Finite 7) (Finite 3)
   \<and> sent_ge (JsonNum 7) (JsonNum 3)
   \<and> stored infinity_first
   \<and> get_leaderboard infinity_first
       (Returns \<lparr>result = [\<lparr>name = ''a'', score = PosInfinity\<rparr>, \<lparr>name = ''b'', score = Finite 5\<rparr>]\<rparr>,
        infinity_first)
   \<and> js_ge PosInfinity (Finite 5)"
proof -
  let ?board = "[\<lparr>name = ''a'', score = Finite 7\<rparr>, \<lparr>name = ''b'', score = Finite 7\<rparr>,
          \<lparr>name = ''c'', score = Finite 3\<rparr>]"
  have "sort_by_score (find_all tied_three) ?board"
    by (simp add: sort_by_score_def descending_def tied_three_def find_all_def without_id_def
        store_le_def)
  from get_board [OF this refl]
  have g: "get_leaderboard tied_three (Returns \<lparr>result = ?board\<rparr>, tied_three)"
    by (simp add: limit_def)
  note get_top_ten_descending [OF stored_tied_three, THEN conjunct2, THEN spec, THEN spec,
      THEN mp, OF g]
  then have body: "send_board (Returns \<lparr>result = ?board\<rparr>) =
        (200, Sent \<lparr>result = map serialize ?board\<rparr>)"
    and ge: "\<forall>i. Suc i < length ?board \<longrightarrow> js_ge (score (?board ! i)) (score (?board ! Suc i))"
    and sent: "\<forall>i. Suc i < length ?board \<longrightarrow>
        sent_score (serialize (?board ! i)) \<noteq> JsonNull \<longrightarrow>
        sent_score (serialize (?board ! Suc i)) \<noteq> JsonNull \<longrightarrow>
        sent_ge (sent_score (serialize (?board ! i))) (sent_score (serialize (?board ! Suc i)))"
    by auto
  from ge [THEN spec, of 1] have ge1: "js_ge (Finite 7) (Finite 3)"
    by simp
  from sent [THEN spec, of 1] have sent1: "sent_ge (JsonNum 7) (JsonNum 3)"
    by (simp add: serialize_def)
  let ?inf = "[\<lparr>name = ''a'', score = PosInfinity\<rparr>, \<lparr>name = ''b'', score = Finite 5\<rparr>]"
  have gi: "get_leaderboard infinity_first (Returns \<lparr>result = ?inf\<rparr>, infinity_first)"
    using get_leaderboard_total [of infinity_first] by (simp add: get_infinity_first)
  note get_top_ten_descending [OF stored_infinity_first, THEN conjunct2, THEN spec, THEN spec,
      THEN mp, OF gi]
  then have "\<forall>i. Suc i < length ?inf \<longrightarrow> js_ge (score (?inf ! i)) (score (?inf ! Suc i))"
    by auto
  from this [THEN spec, of 0] have gei: "js_ge PosInfinity (Finite 5)"
    by simp
  from body have "send_board (Returns \<lparr>result = ?board\<rparr>) =
       (200, Sent \<lparr>result = [\<lparr>sent_name = ''a'', sent_score = JsonNum 7\<rparr>,
                            \<lparr>sent_name = ''b'', sent_score = JsonNum 7\<rparr>,
                            \<lparr>sent_name = ''c'', sent_score = JsonNum 3\<rparr>]\<rparr>)"
    by (simp add: serialize_def)
  with stored_tied_three g ge1 sent1 stored_infinity_first gi gei show ?thesis
    by blast
qed

text \<open>
  The scores \<^verbatim>\<open>1e999\<close> (read as Infinity) and 5 are submitted to the empty
  collection. The board is \<open>[Infinity, 5]\<close>, the body carries \<open>[null, 5]\<close>, and
  \<^verbatim>\<open>null >= 5\<close> is false.
\<close>

theorem get_sorted_by_ge_counterexample:
  "stored infinity_first
   \<and> get_leaderboard infinity_first
       (Returns \<lparr>result = [\<lparr>name = ''a'', score = PosInfinity\<rparr>, \<lparr>name = ''b'', score = Finite 5\<rparr>]\<rparr>,
        infinity_first)
   \<and> send_board
       (Returns \<lparr>result = [\<lparr>name = ''a'', score = PosInfinity\<rparr>, \<lparr>name = ''b'', score = Finite 5\<rparr>]\<rparr>) =
       (200, Sent \<lparr>result = [\<lparr>sent_name = ''a'', sent_score = JsonNull\<rparr>,
                            \<lparr>sent_name = ''b'', sent_score = JsonNum 5\<rparr>]\<rparr>)
   \<and> \<not> sent_ge
         (sent_score ([\<lparr>sent_name = ''a'', sent_score = JsonNull\<rparr>,
                       \<lparr>sent_name = ''b'', sent_score = JsonNum 5\<rparr>] ! 0))
         (sent_score ([\<lparr>sent_name = ''a'', sent_score = JsonNull\<rparr>,
                       \<lparr>sent_name = ''b'', sent_score = JsonNum 5\<rparr>] ! 1))"
proof -
  have "get_leaderboard infinity_first (get_leaderboard_run infinity_first)"
    by (rule get_leaderboard_total)
  then show ?thesis
    using stored_infinity_first
    by (simp add: get_infinity_first send_board_def reply_def serialize_def sent_ge_def)
qed

subsection \<open>PUT /leaderboard: a body that fails validation\<close>

text \<open>
  Claim C2. When the body is null, or reading its \<^verbatim>\<open>name\<close> gives a value that is
  not of type string, or reading its \<^verbatim>\<open>score\<close> gives a value that is not of type
  number, the PUT handler throws the object
  \<^verbatim>\<open>{ statusCode: 400, error: "Bad Request", message: "Invalid body" }\<close>, which is sent
  with status 400. (No property of an absent body can be read: that case is C6.)
\<close>

theorem put_invalid_body_400:
  assumes "body = JNull
      \<or> (\<exists>v. get_property body ''name'' = Inr v \<and> typeof v \<noteq> ''string'')
      \<or> (\<exists>v. get_property body ''score'' = Inr v \<and> typeof v \<noteq> ''number'')"
  shows "fst (put_leaderboard body c) =
           Throws (Object \<lparr>statusCode = 400, message = ''Invalid body'', error = ''Bad Request''\<rparr>)
       \<and> reply (fst (put_leaderboard body c)) =
           (400, SentError \<lparr>statusCode = 400, message = ''Invalid body'', error = ''Bad Request''\<rparr>)"
  using assms
  by (auto simp: put_leaderboard_def invalid_body_def reply_def get_property_throws
      split: sum.splits jsvalue.splits)

theorem put_invalid_body_400_witness:
  "get_property (JObject [(''name'', JString ''X'')]) ''score'' = Inr JUndefined
   \<and> typeof JUndefined \<noteq> ''number''
   \<and> reply (fst (put_leaderboard (JObject [(''name'', JString ''X'')]) [])) =
       (400, SentError \<lparr>statusCode = 400, message = ''Invalid body'', error = ''Bad Request''\<rparr>)
   \<and> reply (fst (put_leaderboard JNull [])) =
       (400, SentError \<lparr>statusCode = 400, message = ''Invalid body'', error = ''Bad Request''\<rparr>)"
proof -
  have h: "get_property (JObject [(''name'', JString ''X'')]) ''score'' = Inr JUndefined
      \<and> typeof JUndefined \<noteq> ''number''"
    by simp
  then have "JObject [(''name'', JString ''X'')] = JNull
      \<or> (\<exists>v. get_property (JObject [(''name'', JString ''X'')]) ''name'' = Inr v
            \<and> typeof v \<noteq> ''string'')
      \<or> (\<exists>v. get_property (JObject [(''name'', JString ''X'')]) ''score'' = Inr v
            \<and> typeof v \<noteq> ''number'')"
    by blast
  from put_invalid_body_400 [OF this, of "[]"] put_invalid_body_400 [of JNull "[]"] h
  show ?thesis by blast
qed

text \<open>
  Claim C3. For the same bodies the PUT handler writes nothing: the collection after the
  request is the collection before it.
\<close>

theorem put_invalid_body_no_write:
  assumes "body = JNull
      \<or> (\<exists>v. get_property body ''name'' = Inr v \<and> typeof v \<noteq> ''string'')
      \<or> (\<exists>v. get_property body ''score'' = Inr v \<and> typeof v \<noteq> ''number'')"
  shows "snd (put_leaderboard body c) = c"
  using assms
  by (auto simp: put_leaderboard_def get_property_throws split: sum.splits jsvalue.splits)

theorem put_invalid_body_no_write_witness:
  "get_property (JObject [(''name'', JString ''X'')]) ''score'' = Inr JUndefined
   \<and> typeof JUndefined \<noteq> ''number''
   \<and> snd (put_leaderboard (JObject [(''name'', JString ''X'')]) two_scores) = two_scores"
proof -
  have h: "get_property (JObject [(''name'', JString ''X'')]) ''score'' = Inr JUndefined
      \<and> typeof JUndefined \<noteq> ''number''"
    by simp
  then have "JObject [(''name'', JString ''X'')] = JNull
      \<or> (\<exists>v. get_property (JObject [(''name'', JString ''X'')]) ''name'' = Inr v
            \<and> typeof v \<noteq> ''string'')
      \<or> (\<exists>v. get_property (JObject [(''name'', JString ''X'')]) ''score'' = Inr v
            \<and> typeof v \<noteq> ''number'')"
    by blast
  from put_invalid_body_no_write [OF this, of two_scores] h
  show ?thesis by blast
qed

subsection \<open>PUT /leaderboard: a valid body\<close>

text \<open>
  Claim C4. When \<^verbatim>\<open>body.name\<close> is the string \<open>n\<close> and \<^verbatim>\<open>body.score\<close> the
  number \<open>s\<close>, the PUT handler appends exactly one document to the collection, made of
  \<open>n\<close> and \<open>s\<close> as they are and a fresh identifier (nothing else of the body is
  kept), leaves the stored documents as they were, and answers with status 200 and exactly
  \<^verbatim>\<open>{ statusCode: 200, message: "Your score has been posted" }\<close>.
\<close>

theorem put_valid_body_inserts:
  assumes "get_property body ''name'' = Inr (JString n)"
    and "get_property body ''score'' = Inr (JNumber s)"
  shows "put_leaderboard body c =
           (Returns \<lparr>statusCode = 200, message = ''Your score has been posted''\<rparr>,
            c @ [\<lparr>name = n, score = s, oid = fresh_oid c\<rparr>])
       \<and> reply (fst (put_leaderboard body c)) =
           (200, Sent \<lparr>statusCode = 200, message = ''Your score has been posted''\<rparr>)
       \<and> without_id \<lparr>name = n, score = s, oid = fresh_oid c\<rparr> = \<lparr>name = n, score = s\<rparr>
       \<and> fresh_oid c \<notin> oid ` set c"
proof -
  have "body \<noteq> JNull"
    using assms(1) by auto
  then have "put_leaderboard body c =
           (Returns \<lparr>statusCode = 200, message = ''Your score has been posted''\<rparr>,
            c @ [\<lparr>name = n, score = s, oid = fresh_oid c\<rparr>])"
    using assms by (simp add: put_leaderboard_def posted_def insertOne_def)
  then show ?thesis
    by (simp add: reply_def without_id_def fresh_oid_new)
qed

theorem put_valid_body_inserts_witness:
  "get_property (JObject [(''score'', JNumber (Finite 50)), (''name'', JString '' Alice ''),
       (''rank'', JNumber (Finite 1))]) ''name'' = Inr (JString '' Alice '')
   \<and> get_property (JObject [(''score'', JNumber (Finite 50)), (''name'', JString '' Alice ''),
       (''rank'', JNumber (Finite 1))]) ''score'' = Inr (JNumber (Finite 50))
   \<and> put_leaderboard (JObject [(''score'', JNumber (Finite 50)), (''name'', JString '' Alice ''),
       (''rank'', JNumber (Finite 1))]) two_scores =
       (Returns \<lparr>statusCode = 200, message = ''Your score has been posted''\<rparr>,
        two_scores @ [\<lparr>name = '' Alice '', score = Finite 50, oid = 2\<rparr>])"
proof -
  let ?body = "JObject [(''score'', JNumber (Finite 50)), (''name'', JString '' Alice ''),
       (''rank'', JNumber (Finite 1))]"
  have n: "get_property ?body ''name'' = Inr (JString '' Alice '')" by simp
  have s: "get_property ?body ''score'' = Inr (JNumber (Finite 50))" by simp
  have f: "fresh_oid two_scores = 2" by (simp add: fresh_oid_def two_scores_def)
  from put_valid_body_inserts [OF n s, of two_scores] n s f show ?thesis
    by simp
qed

subsection \<open>GET /leaderboard: fifteen distinct scores\<close>

text \<open>
  Claim C5. When 15 documents are stored and their scores are pairwise distinct, GET has
  an answer, and in every answer the board has exactly 10 entries, all of them stored
  entries, and every stored entry that is not on the board has a score strictly below the
  score of every entry that is: the board is the 10 highest, and it is the first ten of
  the descending arrangement. (Scores are distinct as values, and compared in the store's
  order.)
\<close>

theorem get_fifteen_distinct:
  assumes len: "length c = 15" and d: "distinct (map score c)"
  shows "(\<exists>out. get_leaderboard c (out, c))
       \<and> (\<forall>out c'. get_leaderboard c (out, c') \<longrightarrow>
            (\<exists>board. out = Returns \<lparr>result = board\<rparr>
               \<and> length board = 10
               \<and> set board \<subseteq> set (find_all c)
               \<and> (\<forall>e\<in>set board. \<forall>x\<in>set (find_all c) - set board.
                      store_less (score x) (score e))
               \<and> board = limit 10 (arrange (find_all c))))"
  (is "?total \<and> (\<forall>out c'. ?get out c' \<longrightarrow> ?good out c')")
proof (intro conjI allI impI)
  show ?total
    by (rule get_leaderboard_returns)
next
  fix out c'
  assume get: "get_leaderboard c (out, c')"
  from get obtain ys where ys: "sort_by_score (find_all c) ys"
    and out: "out = Returns \<lparr>result = limit 10 ys\<rparr>"
    by (rule get_leaderboard_board)
  let ?b = "take 10 ys"
  have dall: "distinct (map score (find_all c))"
    using d by (simp add: score_find_all)
  have "length ys = 15"
    using sort_by_score_length [OF ys] len by (simp add: find_all_def)
  then have l10: "length ?b = 10"
    by simp
  have sets: "set ys = set (find_all c)"
    using ys by (auto simp: sort_by_score_def dest: mset_eq_setD)
  have sub: "set ?b \<subseteq> set (find_all c)"
    using sets set_take_subset [of 10 ys] by simp
  have same: "ys = arrange (find_all c)"
    using dall ys sort_by_score_arrange by (rule sort_by_score_unique)
  have split: "ys = ?b @ drop 10 ys"
    by simp
  have "sorted_wrt (\<lambda>a b. store_le (score b) (score a)) (?b @ drop 10 ys)"
    using ys by (simp add: sort_by_score_def descending_def)
  then have below: "\<forall>e\<in>set ?b. \<forall>x\<in>set (drop 10 ys). store_le (score x) (score e)"
    unfolding sorted_wrt_append by blast
  have "mset (map score ys) = mset (map score (find_all c))"
    using ys by (simp add: sort_by_score_def)
  then have "distinct (map score ys)"
    using dall by (metis mset_eq_imp_distinct_iff)
  then have inj: "inj_on score (set ys)"
    by (simp add: distinct_map)
  have high: "store_less (score x) (score e)"
    if e: "e \<in> set ?b" and x: "x \<in> set (find_all c) - set ?b" for e x
  proof -
    have xin: "x \<in> set ys" using x sets by simp
    then have "x \<in> set ?b \<union> set (drop 10 ys)"
      by (metis split set_append)
    then have xd: "x \<in> set (drop 10 ys)" using x by simp
    have ein: "e \<in> set ys" using e by (rule in_set_takeD)
    have "x \<noteq> e" using e x by auto
    then have "score x \<noteq> score e"
      using inj xin ein by (auto dest: inj_onD)
    moreover have "store_le (score x) (score e)"
      using below e xd by blast
    ultimately show "store_less (score x) (score e)" by (simp add: store_less_def)
  qed
  show "?good out c'"
    using out l10 sub high same by (auto simp: limit_def)
qed

theorem get_fifteen_distinct_witness:
  "length fifteen = 15 \<and> distinct (map score fifteen)
   \<and> get_leaderboard fifteen (get_leaderboard_run fifteen)
   \<and> map score (result (case fst (get_leaderboard_run fifteen) of Returns b \<Rightarrow> b)) =
       map Finite [14, 13, 12, 11, 10, 9, 8, 7, 6, 5]"
proof -
  have l: "length fifteen = 15" by (simp add: fifteen_def)
  have d: "distinct (map score fifteen)" by (simp add: fifteen_def)
  have g: "get_leaderboard fifteen (fst (get_leaderboard_run fifteen), fifteen)"
    using get_leaderboard_total [of fifteen] by (simp add: get_leaderboard_run_def)
  have "arrange (find_all fifteen) =
      map (\<lambda>i. \<lparr>name = ''p'', score = Finite i\<rparr>)
        [14, 13, 12, 11, 10, 9, 8, 7, 6, 5, 4, 3, 2, 1, 0]"
    by (simp add: fifteen_def find_all_def without_id_def store_le_def)
  then have r: "map score (limit 10 (arrange (find_all fifteen))) =
      map Finite [14, 13, 12, 11, 10, 9, 8, 7, 6, 5]"
    by (simp add: limit_def)
  from get_fifteen_distinct [OF l d] l d g r get_leaderboard_total [of fifteen]
  show ?thesis
    by (auto simp: get_leaderboard_run_def)
qed

subsection \<open>PUT /leaderboard: an absent body\<close>

text \<open>
  Claim C6. When the body is \<^verbatim>\<open>undefined\<close>, the test \<^verbatim>\<open>body === null\<close> is
  false and reading \<^verbatim>\<open>body.name\<close> throws a TypeError: the handler throws it instead
  of the 400 object, nothing is written, and the framework answers 500. This is the only
  body for which the handler throws a TypeError.
\<close>

theorem put_undefined_body_type_error:
  "get_property JUndefined ''name'' = Inl TypeError
   \<and> put_leaderboard JUndefined c = (Throws TypeError, c)
   \<and> reply (fst (put_leaderboard JUndefined c)) = (500, InternalError)
   \<and> fst (put_leaderboard JUndefined c) \<noteq>
       Throws (Object \<lparr>statusCode = 400, message = ''Invalid body'', error = ''Bad Request''\<rparr>)
   \<and> (fst (put_leaderboard body c) = Throws TypeError) = (body = JUndefined)"
proof -
  have "(fst (put_leaderboard body c) = Throws TypeError) = (body = JUndefined)"
    by (cases body)
      (auto simp: put_leaderboard_def invalid_body_def split: option.splits jsvalue.splits)
  then show ?thesis
    by (simp add: put_leaderboard_def reply_def)
qed

subsection \<open>GET /leaderboard: no write\<close>

text \<open>
  Claim C7. The GET handler is read-only: it has an answer on every collection, and
  whatever it answers, the collection after the request is the collection before it.
\<close>

theorem get_read_only:
  "(\<exists>out. get_leaderboard c (out, c))
   \<and> (\<forall>out c'. get_leaderboard c (out, c') \<longrightarrow> c' = c)"
proof (intro conjI allI impI)
  show "\<exists>out. get_leaderboard c (out, c)"
    by (rule get_leaderboard_returns)
next
  fix out c'
  assume "get_leaderboard c (out, c')"
  then show "c' = c"
    by (rule get_leaderboard_board)
qed

theorem get_read_only_witness:
  "get_leaderboard two_scores (get_leaderboard_run two_scores)
   \<and> snd (get_leaderboard_run two_scores) = two_scores"
proof -
  have g: "get_leaderboard two_scores
      (fst (get_leaderboard_run two_scores), snd (get_leaderboard_run two_scores))"
    using get_leaderboard_total [of two_scores] by simp
  from get_read_only [of two_scores] g get_leaderboard_total [of two_scores]
  show ?thesis by blast
qed

subsection \<open>GET /leaderboard twice\<close>

text \<open>
  Claim C8. GET /leaderboard is idempotent. Two GET requests with no write between them
  (the second runs on the collection the first left) both have an answer. Whatever the
  rule by which the store orders documents of equal score, the two answers are the same
  when it is the same rule both times. When the store is free to order equal scores anew
  each time, the second request still sees the same collection, the two boards carry the
  same scores position by position, they hold the same entries whenever at most 10
  documents are stored or the 10th and the 11th highest scores differ (the choice among
  equal scores at the last place is the order of ties, which this property sets aside),
  and when the stored scores are pairwise distinct the two boards are equal, element for
  element.
\<close>

theorem get_twice:
  "(\<exists>out1 out2. get_leaderboard c (out1, c) \<and> get_leaderboard c (out2, c))
   \<and> (\<forall>tie_rule. (\<forall>xs. sort_by_score xs (tie_rule xs)) \<longrightarrow>
          get_leaderboard c (get_leaderboard_by tie_rule c)
        \<and> get_leaderboard (snd (get_leaderboard_by tie_rule c))
            (get_leaderboard_by tie_rule (snd (get_leaderboard_by tie_rule c)))
        \<and> get_leaderboard_by tie_rule (snd (get_leaderboard_by tie_rule c)) =
            get_leaderboard_by tie_rule c)
   \<and> (\<forall>out1 c1 out2 c2.
        get_leaderboard c (out1, c1) \<and> get_leaderboard c1 (out2, c2) \<longrightarrow>
        (\<exists>b1 b2. out1 = Returns \<lparr>result = b1\<rparr> \<and> out2 = Returns \<lparr>result = b2\<rparr>
           \<and> c1 = c \<and> c2 = c
           \<and> map score b1 = map score b2
           \<and> (length c \<le> 10 \<or> scores_descending c ! 9 \<noteq> scores_descending c ! 10 \<longrightarrow>
                mset b1 = mset b2)
           \<and> (distinct (map score c) \<longrightarrow> b1 = b2)))"
  (is "?total \<and> ?fixed \<and> (\<forall>out1 c1 out2 c2. ?get out1 c1 out2 c2 \<longrightarrow> ?good out1 c1 out2 c2)")
proof (intro conjI)
  show ?total
    using get_leaderboard_returns [of c] by blast
next
  show ?fixed
  proof (intro allI impI)
    fix tie_rule :: "LeaderboardEntry list \<Rightarrow> LeaderboardEntry list"
    assume "\<forall>xs. sort_by_score xs (tie_rule xs)"
    then have "sort_by_score (find_all c) (tie_rule (find_all c))"
      by simp
    from get_board [OF this refl]
    have "get_leaderboard c (get_leaderboard_by tie_rule c)"
      by (simp add: get_leaderboard_by_def)
    then show "get_leaderboard c (get_leaderboard_by tie_rule c)
        \<and> get_leaderboard (snd (get_leaderboard_by tie_rule c))
            (get_leaderboard_by tie_rule (snd (get_leaderboard_by tie_rule c)))
        \<and> get_leaderboard_by tie_rule (snd (get_leaderboard_by tie_rule c)) =
            get_leaderboard_by tie_rule c"
      by (simp add: get_leaderboard_by_def)
  qed
next
  show "\<forall>out1 c1 out2 c2. ?get out1 c1 out2 c2 \<longrightarrow> ?good out1 c1 out2 c2"
  proof (intro allI impI)
  fix out1 c1 out2 c2
  assume "get_leaderboard c (out1, c1) \<and> get_leaderboard c1 (out2, c2)"
  then have g1: "get_leaderboard c (out1, c1)" and g2: "get_leaderboard c1 (out2, c2)"
    by simp_all
  from g1 obtain ys where ys: "sort_by_score (find_all c) ys"
    and o1: "out1 = Returns \<lparr>result = limit 10 ys\<rparr>" and c1: "c1 = c"
    by (rule get_leaderboard_board)
  from g2 c1 obtain zs where zs: "sort_by_score (find_all c) zs"
    and o2: "out2 = Returns \<lparr>result = limit 10 zs\<rparr>" and c2: "c2 = c"
    by (auto elim: get_leaderboard_board)
  have "map score ys = map score zs"
    using ys zs by (rule sort_by_score_scores)
  then have "take 10 (map score ys) = take 10 (map score zs)"
    by simp
  then have scores: "map score (limit 10 ys) = map score (limit 10 zs)"
    by (simp add: limit_def take_map)
  have entries: "mset (limit 10 ys) = mset (limit 10 zs)"
    if cut: "length c \<le> 10 \<or> scores_descending c ! 9 \<noteq> scores_descending c ! 10"
  proof -
    let ?a = "arrange (find_all c)"
    have a: "sort_by_score (find_all c) ?a"
      by (rule sort_by_score_arrange)
    have "length ?a = length c"
      using sort_by_score_length [OF a] by (simp add: find_all_def)
    with cut have "length (find_all c) \<le> 10 \<or> score (?a ! 9) \<noteq> score (?a ! 10)"
      by (auto simp: scores_descending_def find_all_def)
    then have "mset (take 10 ?a) = mset (take 10 ys)" and "mset (take 10 ?a) = mset (take 10 zs)"
      using a ys zs by (auto intro: top_ten_same_entries)
    then show ?thesis
      by (simp add: limit_def)
  qed
  have same: "limit 10 ys = limit 10 zs" if "distinct (map score c)"
  proof -
    have "distinct (map score (find_all c))"
      using that by (simp add: score_find_all)
    then have "ys = zs"
      using ys zs by (rule sort_by_score_unique)
    then show "limit 10 ys = limit 10 zs" by simp
  qed
  show "?good out1 c1 out2 c2"
    using o1 o2 c1 c2 scores entries same by blast
  qed
qed

theorem get_twice_witness:
  "get_leaderboard tied_three
     (Returns \<lparr>result = [\<lparr>name = ''a'', score = Finite 7\<rparr>, \<lparr>name = ''b'', score = Finite 7\<rparr>,
        \<lparr>name = ''c'', score = Finite 3\<rparr>]\<rparr>, tied_three)
   \<and> get_leaderboard tied_three
     (Returns \<lparr>result = [\<lparr>name = ''b'', score = Finite 7\<rparr>, \<lparr>name = ''a'', score = Finite 7\<rparr>,
        \<lparr>name = ''c'', score = Finite 3\<rparr>]\<rparr>, tied_three)
   \<and> length tied_three \<le> 10
   \<and> mset [\<lparr>name = ''a'', score = Finite 7\<rparr>, \<lparr>name = ''b'', score = Finite 7\<rparr>,
        \<lparr>name = ''c'', score = Finite 3\<rparr>] =
      mset [\<lparr>name = ''b'', score = Finite 7\<rparr>, \<lparr>name = ''a'', score = Finite 7\<rparr>,
        \<lparr>name = ''c'', score = Finite 3\<rparr>]
   \<and> get_leaderboard fifteen (get_leaderboard_run fifteen)
   \<and> get_leaderboard (snd (get_leaderboard_run fifteen))
        (get_leaderboard_run (snd (get_leaderboard_run fifteen)))
   \<and> distinct (map score fifteen)
   \<and> fst (get_leaderboard_run (snd (get_leaderboard_run fifteen))) =
       fst (get_leaderboard_run fifteen)
   \<and> get_leaderboard_by arrange (snd (get_leaderboard_by arrange tied_three)) =
       get_leaderboard_by arrange tied_three"
proof -
  let ?ab = "[\<lparr>name = ''a'', score = Finite 7\<rparr>, \<lparr>name = ''b'', score = Finite 7\<rparr>,
        \<lparr>name = ''c'', score = Finite 3\<rparr>]"
  let ?ba = "[\<lparr>name = ''b'', score = Finite 7\<rparr>, \<lparr>name = ''a'', score = Finite 7\<rparr>,
        \<lparr>name = ''c'', score = Finite 3\<rparr>]"
  have "sort_by_score (find_all tied_three) ?ab"
    by (simp add: sort_by_score_def descending_def tied_three_def find_all_def without_id_def
        store_le_def)
  from get_board [OF this refl]
  have g1: "get_leaderboard tied_three (Returns \<lparr>result = ?ab\<rparr>, tied_three)"
    by (simp add: limit_def)
  have "sort_by_score (find_all tied_three) ?ba"
    by (simp add: sort_by_score_def descending_def tied_three_def find_all_def without_id_def
        store_le_def)
  from get_board [OF this refl]
  have g2: "get_leaderboard tied_three (Returns \<lparr>result = ?ba\<rparr>, tied_three)"
    by (simp add: limit_def)
  have l: "length tied_three \<le> 10"
    by (simp add: tied_three_def)
  note get_twice [of tied_three, THEN conjunct2, THEN conjunct2, THEN spec, THEN spec, THEN spec,
      THEN spec, THEN mp, OF conjI [OF g1 g2]]
  with l have m: "mset ?ab = mset ?ba"
    by auto
  let ?r = "get_leaderboard_run fifteen"
  have f1: "get_leaderboard fifteen (fst ?r, snd ?r)"
    using get_leaderboard_total [of fifteen] by simp
  have f2: "get_leaderboard (snd ?r) (fst (get_leaderboard_run (snd ?r)),
      snd (get_leaderboard_run (snd ?r)))"
    using get_leaderboard_total [of "snd ?r"] by simp
  have d: "distinct (map score fifteen)"
    by (simp add: fifteen_def)
  note get_twice [of fifteen, THEN conjunct2, THEN conjunct2, THEN spec, THEN spec, THEN spec,
      THEN spec, THEN mp, OF conjI [OF f1 f2]]
  then obtain b1 b2 where "fst ?r = Returns \<lparr>result = b1\<rparr>"
    and "fst (get_leaderboard_run (snd ?r)) = Returns \<lparr>result = b2\<rparr>"
    and "distinct (map score fifteen) \<longrightarrow> b1 = b2"
    by blast
  with d have "fst (get_leaderboard_run (snd ?r)) = fst ?r"
    by simp
  moreover have "get_leaderboard_by arrange (snd (get_leaderboard_by arrange tied_three)) =
       get_leaderboard_by arrange tied_three"
    using get_twice [of tied_three, THEN conjunct2, THEN conjunct1, THEN spec, of arrange]
      sort_by_score_arrange
    by blast
  ultimately show ?thesis
    using g1 g2 l m d get_leaderboard_total [of fifteen]
      get_leaderboard_total [of "snd (get_leaderboard_run fifteen)"]
    by blast
qed

subsection \<open>PUT /leaderboard: no range check\<close>

text \<open>
  Claim C9. Validation tests types only. Whenever \<^verbatim>\<open>typeof body.name\<close> is
  \<^verbatim>\<open>'string'\<close> and \<^verbatim>\<open>typeof body.score\<close> is \<^verbatim>\<open>'number'\<close>, whatever the
  string (the empty one too) and whatever the number (negative, NaN, Infinity and
  -Infinity too), the handler answers with status 200 and one document with that name and
  that score is appended to the collection.
\<close>

theorem put_no_range_check:
  assumes "get_property body ''name'' = Inr vn" and "typeof vn = ''string''"
    and "get_property body ''score'' = Inr vs" and "typeof vs = ''number''"
  shows "fst (reply (fst (put_leaderboard body c))) = 200
       \<and> (\<exists>d. snd (put_leaderboard body c) = c @ [d]
              \<and> JString (name d) = vn \<and> JNumber (score d) = vs)"
proof -
  from assms(2) obtain n where n: "vn = JString n"
    by (auto simp: typeof_string)
  from assms(4) obtain s where s: "vs = JNumber s"
    by (auto simp: typeof_number)
  have "body \<noteq> JNull"
    using assms(1) by auto
  then have "put_leaderboard body c =
      (Returns posted, c @ [\<lparr>name = n, score = s, oid = fresh_oid c\<rparr>])"
    using assms(1,3) n s by (simp add: put_leaderboard_def insertOne_def)
  then show ?thesis
    using n s by (simp add: reply_def)
qed

theorem put_no_range_check_witness:
  "fst (reply (fst (put_leaderboard
        (JObject [(''name'', JString []), (''score'', JNumber NaN)]) []))) = 200
   \<and> fst (reply (fst (put_leaderboard
        (JObject [(''name'', JString []), (''score'', JNumber PosInfinity)]) []))) = 200
   \<and> fst (reply (fst (put_leaderboard
        (JObject [(''name'', JString []), (''score'', JNumber NegInfinity)]) []))) = 200
   \<and> fst (reply (fst (put_leaderboard
        (JObject [(''name'', JString []), (''score'', JNumber (Finite (- 5)))]) []))) = 200
   \<and> map score (snd (put_leaderboard
        (JObject [(''name'', JString []), (''score'', JNumber NaN)]) [])) = [NaN]"
proof -
  have t: "typeof (JString []) = ''string''" "\<And>x. typeof (JNumber x) = ''number''"
    by simp_all
  have p: "\<And>x. get_property (JObject [(''name'', JString []), (''score'', JNumber x)]) ''name''
      = Inr (JString [])"
    "\<And>x. get_property (JObject [(''name'', JString []), (''score'', JNumber x)]) ''score''
      = Inr (JNumber x)"
    by simp_all
  have all: "fst (reply (fst (put_leaderboard
        (JObject [(''name'', JString []), (''score'', JNumber x)]) []))) = 200
      \<and> (\<exists>d. snd (put_leaderboard
        (JObject [(''name'', JString []), (''score'', JNumber x)]) []) = [] @ [d]
              \<and> JString (name d) = JString [] \<and> JNumber (score d) = JNumber x)" for x
    by (rule put_no_range_check [OF p(1) t(1) p(2) t(2)])
  have "map score (snd (put_leaderboard
        (JObject [(''name'', JString []), (''score'', JNumber NaN)]) [])) = [NaN]"
    using all [of NaN] by auto
  with all show ?thesis
    by blast
qed

subsection \<open>Start-up order\<close>

text \<open>
  Claim C10. In every run of the start-up function, the server is told to listen only on
  port 2000, only when the connection was established, and only after the connection was
  established and the collection bound; when the connection is rejected (or never
  settles) the server is never told to listen. When the connection is established, it is.
\<close>

theorem bootstrap_order:
  "(\<forall>p. Listen p \<in> set (bootstrap connect) \<longrightarrow>
      p = 2000 \<and> connect = Fulfilled
      \<and> (\<exists>before after. bootstrap connect = before @ Listen 2000 # after
            \<and> Connected \<in> set before
            \<and> CollectionBound ''example'' ''leaderboard'' \<in> set before
            \<and> Listen 2000 \<notin> set before))
   \<and> (connect \<noteq> Fulfilled \<longrightarrow> (\<forall>p. Listen p \<notin> set (bootstrap connect)))
   \<and> Listen 2000 \<in> set (bootstrap Fulfilled)"
proof -
  have ok: "bootstrap Fulfilled =
      [ConnectCalled, Connected, CollectionBound ''example'' ''leaderboard'',
       RouteRegistered GET ''/leaderboard'', RouteRegistered PUT ''/leaderboard'']
      @ Listen 2000 # []"
    by (simp add: bootstrap_def await_def)
  have no: "bootstrap connect = [ConnectCalled]" if "connect \<noteq> Fulfilled"
    using that by (cases connect) (simp_all add: bootstrap_def await_def)
  have a: "p = 2000 \<and> connect = Fulfilled
      \<and> (\<exists>before after. bootstrap connect = before @ Listen 2000 # after
            \<and> Connected \<in> set before
            \<and> CollectionBound ''example'' ''leaderboard'' \<in> set before
            \<and> Listen 2000 \<notin> set before)"
    if l: "Listen p \<in> set (bootstrap connect)" for p
  proof (cases "connect = Fulfilled")
    case True
    with l have "p = 2000" by (simp add: ok)
    moreover have "\<exists>before after. bootstrap Fulfilled = before @ Listen 2000 # after
            \<and> Connected \<in> set before
            \<and> CollectionBound ''example'' ''leaderboard'' \<in> set before
            \<and> Listen 2000 \<notin> set before"
      by (intro exI conjI, rule ok) simp_all
    ultimately show ?thesis using True by simp
  next
    case False
    with l no show ?thesis by simp
  qed
  have b: "\<forall>p. Listen p \<notin> set (bootstrap connect)" if "connect \<noteq> Fulfilled"
    using no [OF that] by simp
  have c: "Listen 2000 \<in> set (bootstrap Fulfilled)"
    by (simp add: ok)
  from a b c show ?thesis by blast
qed

theorem bootstrap_order_witness:
  "Listen 2000 \<in> set (bootstrap Fulfilled)
   \<and> bootstrap Fulfilled =
       [ConnectCalled, Connected, CollectionBound ''example'' ''leaderboard'',
        RouteRegistered GET ''/leaderboard'', RouteRegistered PUT ''/leaderboard'', Listen 2000]
   \<and> Rejected \<noteq> Fulfilled
   \<and> Listen 2000 \<notin> set (bootstrap Rejected)
   \<and> bootstrap Rejected = [ConnectCalled]"
proof -
  have f: "bootstrap Fulfilled =
       [ConnectCalled, Connected, CollectionBound ''example'' ''leaderboard'',
        RouteRegistered GET ''/leaderboard'', RouteRegistered PUT ''/leaderboard'', Listen 2000]"
    by (simp add: bootstrap_def await_def)
  have r: "bootstrap Rejected = [ConnectCalled]"
    by (simp add: bootstrap_def await_def)
  from bootstrap_order [of Fulfilled] bootstrap_order [of Rejected] f r show ?thesis
    by simp
qed

subsection \<open>A submission and the board after it\<close>

text \<open>
  On the empty collection the only answer of GET is \<^verbatim>\<open>{ result: [] }\<close>.
\<close>

theorem get_empty:
  "get_leaderboard [] (out, c') = (out = Returns \<lparr>result = []\<rparr> \<and> c' = [])"
proof
  assume "get_leaderboard [] (out, c')"
  then obtain ys where "sort_by_score (find_all []) ys"
    and "out = Returns \<lparr>result = limit 10 ys\<rparr>" and "c' = []"
    by (rule get_leaderboard_board)
  then show "out = Returns \<lparr>result = []\<rparr> \<and> c' = []"
    by (simp add: sort_by_score_def find_all_def limit_def)
next
  assume "out = Returns \<lparr>result = []\<rparr> \<and> c' = []"
  then show "get_leaderboard [] (out, c')"
    using get_leaderboard_total [of "[]"]
    by (simp add: get_leaderboard_run_def find_all_def limit_def)
qed

text \<open>
  After Alice's 50 and Bob's 90 are submitted to the empty collection, the only answer of
  GET is the board \<open>[Bob 90, Alice 50]\<close>.
\<close>

theorem scenario_alice_bob:
  "get_leaderboard
     (snd (put_leaderboard (JObject [(''name'', JString ''Bob''), (''score'', JNumber (Finite 90))])
        (snd (put_leaderboard
           (JObject [(''name'', JString ''Alice''), (''score'', JNumber (Finite 50))]) []))))
     (out, c')
   = (out = Returns
        \<lparr>result = [\<lparr>name = ''Bob'', score = Finite 90\<rparr>, \<lparr>name = ''Alice'', score = Finite 50\<rparr>]\<rparr>
      \<and> c' = [\<lparr>name = ''Alice'', score = Finite 50, oid = 1\<rparr>,
              \<lparr>name = ''Bob'', score = Finite 90, oid = 2\<rparr>])"
proof -
  let ?c = "[\<lparr>name = ''Alice'', score = Finite 50, oid = 1\<rparr>,
              \<lparr>name = ''Bob'', score = Finite 90, oid = 2\<rparr>]"
  let ?b = "[\<lparr>name = ''Bob'', score = Finite 90\<rparr>, \<lparr>name = ''Alice'', score = Finite 50\<rparr>]"
  have c2: "snd (put_leaderboard (JObject [(''name'', JString ''Bob''), (''score'', JNumber (Finite 90))])
        (snd (put_leaderboard
           (JObject [(''name'', JString ''Alice''), (''score'', JNumber (Finite 50))]) []))) = ?c"
    by (simp add: put_leaderboard_def insertOne_def fresh_oid_def)
  have d: "distinct (map score (find_all ?c))"
    by (simp add: find_all_def without_id_def)
  have arr: "arrange (find_all ?c) = ?b"
    by (simp add: find_all_def without_id_def store_le_def)
  have "get_leaderboard ?c (out, c') = (out = Returns \<lparr>result = ?b\<rparr> \<and> c' = ?c)"
  proof
    assume "get_leaderboard ?c (out, c')"
    then obtain ys where ys: "sort_by_score (find_all ?c) ys"
      and out: "out = Returns \<lparr>result = limit 10 ys\<rparr>" and c': "c' = ?c"
      by (rule get_leaderboard_board)
    have "ys = arrange (find_all ?c)"
      using d ys sort_by_score_arrange by (rule sort_by_score_unique)
    then show "out = Returns \<lparr>result = ?b\<rparr> \<and> c' = ?c"
      using out c' arr by (simp add: limit_def)
  next
    assume r: "out = Returns \<lparr>result = ?b\<rparr> \<and> c' = ?c"
    have "limit 10 ?b = ?b"
      by (simp add: limit_def)
    then have "get_leaderboard_run ?c = (Returns \<lparr>result = ?b\<rparr>, ?c)"
      unfolding get_leaderboard_run_def arr by simp
    then have "get_leaderboard ?c (Returns \<lparr>result = ?b\<rparr>, ?c)"
      using get_leaderboard_total [of ?c] by simp
    with r show "get_leaderboard ?c (out, c')"
      by simp
  qed
  then show ?thesis
    by (simp only: c2)
qed

text \<open>
  A valid submission is on the board of the next GET when fewer than 10 stored documents
  have a score at or above its score.
\<close>

theorem put_then_get_shows_entry:
  assumes n: "get_property body ''name'' = Inr (JString n)"
    and s: "get_property body ''score'' = Inr (JNumber s)"
    and few: "length (filter (\<lambda>d. store_le s (score d)) c) < 10"
    and get: "get_leaderboard (snd (put_leaderboard body c)) (out, c')"
  shows "\<exists>board. out = Returns \<lparr>result = board\<rparr> \<and> \<lparr>name = n, score = s\<rparr> \<in> set board"
proof -
  let ?e = "\<lparr>name = n, score = s\<rparr>"
  let ?P = "\<lambda>x::LeaderboardEntry. store_le s (score x)"
  have c2: "snd (put_leaderboard body c) = c @ [\<lparr>name = n, score = s, oid = fresh_oid c\<rparr>]"
    by (simp add: put_leaderboard_valid [OF n s])
  from get obtain ys where ys: "sort_by_score (find_all (snd (put_leaderboard body c))) ys"
    and out: "out = Returns \<lparr>result = limit 10 ys\<rparr>"
    by (rule get_leaderboard_board)
  have all: "find_all (snd (put_leaderboard body c)) = find_all c @ [?e]"
    by (simp add: c2 find_all_def without_id_def)
  have ms: "mset ys = add_mset ?e (mset (find_all c))"
    using ys by (simp add: sort_by_score_def all)
  have desc: "sorted_wrt (\<lambda>a b. store_le (score b) (score a)) (take 10 ys @ drop 10 ys)"
    using ys by (simp add: sort_by_score_def descending_def)
  have "?e \<in> set (take 10 ys)"
  proof (rule ccontr)
    assume notin: "?e \<notin> set (take 10 ys)"
    have "?e \<in> set ys"
      using ms by (metis union_single_eq_member set_mset_mset)
    then have "?e \<in> set (take 10 ys) \<union> set (drop 10 ys)"
      by (metis append_take_drop_id set_append)
    with notin have ed: "?e \<in> set (drop 10 ys)"
      by simp
    then have "drop 10 ys \<noteq> []"
      by auto
    then have l10: "length (take 10 ys) = 10"
      by simp
    have above: "\<forall>x\<in>set (take 10 ys). ?P x"
      using desc ed unfolding sorted_wrt_append by fastforce
    then have f10: "filter ?P (take 10 ys) = take 10 ys"
      by simp
    from ed obtain D where D: "mset (drop 10 ys) = add_mset ?e D"
      by (metis in_multiset_in_set mset_add)
    have "mset ys = mset (take 10 ys) + mset (drop 10 ys)"
      by (metis append_take_drop_id mset_append)
    with ms D have "mset (find_all c) = mset (take 10 ys) + D"
      by simp
    then have "filter_mset ?P (mset (find_all c)) =
        mset (filter ?P (take 10 ys)) + filter_mset ?P D"
      by simp
    then have "size (filter_mset ?P (mset (find_all c))) \<ge> 10"
      using f10 l10 by simp
    moreover have "size (filter_mset ?P (mset (find_all c))) = length (filter ?P (find_all c))"
      by (metis mset_filter size_mset)
    moreover have "length (filter ?P (find_all c)) =
        length (filter (\<lambda>d. store_le s (score d)) c)"
      by (induction c) (simp_all add: find_all_def without_id_def)
    ultimately show False
      using few by simp
  qed
  with out show ?thesis
    by (simp add: limit_def)
qed

theorem put_then_get_shows_entry_witness:
  "get_leaderboard
     (snd (put_leaderboard (JObject [(''name'', JString ''Bob''), (''score'', JNumber (Finite 90))])
        [\<lparr>name = ''Alice'', score = Finite 50, oid = 1\<rparr>]))
     (Returns \<lparr>result = [\<lparr>name = ''Bob'', score = Finite 90\<rparr>, \<lparr>name = ''Alice'', score = Finite 50\<rparr>]\<rparr>,
      [\<lparr>name = ''Alice'', score = Finite 50, oid = 1\<rparr>, \<lparr>name = ''Bob'', score = Finite 90, oid = 2\<rparr>])
   \<and> \<lparr>name = ''Bob'', score = Finite 90\<rparr> \<in>
       set [\<lparr>name = ''Bob'', score = Finite 90\<rparr>, \<lparr>name = ''Alice'', score = Finite 50\<rparr>]"
proof -
  let ?body = "JObject [(''name'', JString ''Bob''), (''score'', JNumber (Finite 90))]"
  let ?c = "[\<lparr>name = ''Alice'', score = Finite 50, oid = 1\<rparr>]"
  have n: "get_property ?body ''name'' = Inr (JString ''Bob'')" by simp
  have s: "get_property ?body ''score'' = Inr (JNumber (Finite 90))" by simp
  have few: "length (filter (\<lambda>d. store_le (Finite 90) (score d)) ?c) < 10" by simp
  have c2: "snd (put_leaderboard ?body ?c) =
      [\<lparr>name = ''Alice'', score = Finite 50, oid = 1\<rparr>, \<lparr>name = ''Bob'', score = Finite 90, oid = 2\<rparr>]"
    by (simp add: put_leaderboard_valid [OF n s] fresh_oid_def)
  have run: "get_leaderboard_run (snd (put_leaderboard ?body ?c)) =
      (Returns \<lparr>result = [\<lparr>name = ''Bob'', score = Finite 90\<rparr>, \<lparr>name = ''Alice'', score = Finite 50\<rparr>]\<rparr>,
       snd (put_leaderboard ?body ?c))"
    unfolding c2
    by (simp add: get_leaderboard_run_def find_all_def without_id_def limit_def store_le_def)
  have g: "get_leaderboard (snd (put_leaderboard ?body ?c))
      (Returns \<lparr>result = [\<lparr>name = ''Bob'', score = Finite 90\<rparr>, \<lparr>name = ''Alice'', score = Finite 50\<rparr>]\<rparr>,
       snd (put_leaderboard ?body ?c))"
    using get_leaderboard_total [of "snd (put_leaderboard ?body ?c)"] by (simp only: run)
  from put_then_get_shows_entry [OF n s few g] g c2 show ?thesis
    by simp
qed

text \<open>
  A PUT request keeps the identifiers of the stored documents pairwise distinct.
\<close>

theorem put_keeps_identifiers_distinct:
  "distinct (map oid c) \<Longrightarrow> distinct (map oid (snd (put_leaderboard body c)))"
proof -
  assume d: "distinct (map oid c)"
  have "snd (put_leaderboard body c) = c \<or>
      (\<exists>n s. snd (put_leaderboard body c) = c @ [\<lparr>name = n, score = s, oid = fresh_oid c\<rparr>])"
    by (auto simp: put_leaderboard_def insertOne_def split: sum.splits jsvalue.splits)
  then show ?thesis
    using d fresh_oid_new [of c] by auto
qed

theorem put_keeps_identifiers_distinct_witness:
  "distinct (map oid two_scores)
   \<and> map oid (snd (put_leaderboard
        (JObject [(''name'', JString ''c''), (''score'', JNumber (Finite 3))]) two_scores)) =
       [0, 1, 2]"
proof -
  have d: "distinct (map oid two_scores)"
    by (simp add: two_scores_def)
  have "map oid (snd (put_leaderboard
        (JObject [(''name'', JString ''c''), (''score'', JNumber (Finite 3))]) two_scores)) =
       [0, 1, 2]"
    by (simp add: put_leaderboard_def insertOne_def fresh_oid_def two_scores_def)
  with put_keeps_identifiers_distinct [OF d] d show ?thesis
    by simp
qed

end
